theory Spec2Isabelle
  imports Complex_Main
begin

text \<open>
  The scroll-synchronised animation subsystem of the Cheatham Arboriculture page: the
  parallax driver (\<^verbatim>\<open>useParallaxRelative\<close>), the section-activity observer of \<^verbatim>\<open>App\<close>,
  the auto-scrolling strip (\<^verbatim>\<open>AutoScrollGallery\<close>) and the clone-padded sliding carousel
  (\<^verbatim>\<open>GalleryCarousel\<close>). Each component is modelled by its state, the handlers and effects
  of the source as functions on that state, and the events that drive it; what the
  components register with the browser is kept in an explicit registry.
\<close>

section \<open>JavaScript arithmetic used by the components\<close>

text \<open>
  JavaScript's \<^verbatim>\<open>%\<close> is the truncating remainder: the result takes the sign of the
  dividend. Indices and image counts are small integral numbers, on which the
  arithmetic of doubles is exact, so they are modelled as \<^typ>\<open>int\<close>.
\<close>

definition js_rem_int :: "int \<Rightarrow> int \<Rightarrow> int" where
  "js_rem_int a n = sgn a * (\<bar>a\<bar> mod \<bar>n\<bar>)"

section \<open>GalleryCarousel (src/App.jsx): the clone-padded sliding carousel\<close>

text \<open>
  The component's state is the three \<^verbatim>\<open>useState\<close> cells: \<^verbatim>\<open>index\<close> (initially 1),
  \<^verbatim>\<open>isAnimating\<close> (initially true) and \<^verbatim>\<open>paused\<close> (initially false).
\<close>

record carousel =
  index :: int
  isAnimating :: bool
  paused :: bool

definition carousel_init :: carousel where
  "carousel_init = \<lparr>index = 1, isAnimating = True, paused = False\<rparr>"

text \<open>
  \<^verbatim>\<open>slides\<close>: empty for an empty image list, otherwise
  \<^verbatim>\<open>[images[images.length - 1], ...images, images[0]]\<close>.
\<close>

definition slides :: "'a list \<Rightarrow> 'a list" where
  "slides images =
     (if length images = 0 then []
      else images ! (length images - 1) # images @ [images ! 0])"

text \<open>
  The autoplay effect installs its 3500 ms interval unless \<^verbatim>\<open>paused\<close> is set or
  \<^verbatim>\<open>slides.length\<close> is 0. It consults nothing else.
\<close>

definition autoplay_installed :: "'a list \<Rightarrow> carousel \<Rightarrow> bool" where
  "autoplay_installed images c = (\<not> (paused c \<or> length (slides images) = 0))"

text \<open>The interval callback: \<^verbatim>\<open>setIndex((i) => i + 1); setAnimating(true)\<close>.\<close>

definition autoplay_tick :: "carousel \<Rightarrow> carousel" where
  "autoplay_tick c = c\<lparr>index := index c + 1, isAnimating := True\<rparr>"

text \<open>The \<^verbatim>\<open>transitionend\<close> handler \<^verbatim>\<open>onEnd\<close>.\<close>

definition onEnd :: "'a list \<Rightarrow> carousel \<Rightarrow> carousel" where
  "onEnd images c =
     (if index c = int (length (slides images)) - 1
        then c\<lparr>isAnimating := False, index := 1\<rparr>
      else if index c = 0
        then c\<lparr>isAnimating := False, index := int (length (slides images)) - 2\<rparr>
      else c)"

text \<open>
  The re-enable effect requests an animation frame whenever \<^verbatim>\<open>isAnimating\<close> is false;
  its callback is \<^verbatim>\<open>setAnimating(true)\<close>. With \<^verbatim>\<open>isAnimating\<close> true no frame is
  requested, so a rendered frame changes nothing.
\<close>

definition reenable_frame :: "carousel \<Rightarrow> carousel" where
  "reenable_frame c = (if isAnimating c then c else c\<lparr>isAnimating := True\<rparr>)"

text \<open>\<^verbatim>\<open>go(dir)\<close>: \<^verbatim>\<open>setAnimating(true); setIndex((i) => i + dir)\<close>.\<close>

definition go :: "int \<Rightarrow> carousel \<Rightarrow> carousel" where
  "go dir c = c\<lparr>isAnimating := True, index := index c + dir\<rparr>"

text \<open>The click handler of dot \<open>i\<close>: \<^verbatim>\<open>setIndex(i + 1); setAnimating(true)\<close>.\<close>

definition dot_click :: "nat \<Rightarrow> carousel \<Rightarrow> carousel" where
  "dot_click i c = c\<lparr>index := int i + 1, isAnimating := True\<rparr>"

text \<open>
  \<^verbatim>\<open>realIndex = images.length ? (index - 1 + images.length) % images.length : 0\<close>.
\<close>

definition realIndex :: "'a list \<Rightarrow> carousel \<Rightarrow> int" where
  "realIndex images c =
     (if length images \<noteq> 0
      then js_rem_int (index c - 1 + int (length images)) (int (length images))
      else 0)"

text \<open>
  What can happen to a mounted carousel: the interval fires, the track's transition ends,
  a frame is rendered, the previous or next button or dot \<open>i\<close> is clicked (the buttons
  call \<^verbatim>\<open>go(-1)\<close> and \<^verbatim>\<open>go(1)\<close>; a dot exists for every \<open>i < images.length\<close>), the
  pointer enters or leaves.
\<close>

datatype carousel_event =
    AutoplayTick
  | TransitionEnd
  | AnimationFrame
  | PrevClick
  | NextClick
  | DotClick nat
  | MouseEnter
  | MouseLeave

fun carousel_step :: "'a list \<Rightarrow> carousel_event \<Rightarrow> carousel \<Rightarrow> carousel" where
  "carousel_step images AutoplayTick c =
     (if autoplay_installed images c then autoplay_tick c else c)"
| "carousel_step images TransitionEnd c = onEnd images c"
| "carousel_step images AnimationFrame c = reenable_frame c"
| "carousel_step images PrevClick c = go (- 1) c"
| "carousel_step images NextClick c = go 1 c"
| "carousel_step images (DotClick i) c =
     (if i < length images then dot_click i c else c)"
| "carousel_step images MouseEnter c = c\<lparr>paused := True\<rparr>"
| "carousel_step images MouseLeave c = c\<lparr>paused := False\<rparr>"

fun carousel_run :: "'a list \<Rightarrow> carousel_event list \<Rightarrow> carousel \<Rightarrow> carousel" where
  "carousel_run images [] c = c"
| "carousel_run images (ev # evs) c = carousel_run images evs (carousel_step images ev c)"

section \<open>The browser's registry of subscriptions\<close>

text \<open>
  Every effect of the page subscribes to something the browser keeps: a pending
  \<^verbatim>\<open>requestAnimationFrame\<close> request, a running \<^verbatim>\<open>setInterval\<close> timer, an event
  listener (an event type and the handler registered for it), or an observer
  (\<^verbatim>\<open>IntersectionObserver\<close>, \<^verbatim>\<open>ResizeObserver\<close>) that observes a target. Handles are
  positive numbers issued in order; a handle is never issued twice. The revoking calls
  (\<^verbatim>\<open>cancelAnimationFrame\<close>, \<^verbatim>\<open>clearInterval\<close>, \<^verbatim>\<open>removeEventListener\<close>,
  \<^verbatim>\<open>disconnect\<close>) do nothing for a handle that is not registered.
\<close>

record browser =
  frames :: "nat list"
  intervals :: "nat list"
  listeners :: "(string \<times> string) list"
  observers :: "nat list"
  issued :: nat

definition browser_init :: browser where
  "browser_init = \<lparr>frames = [], intervals = [], listeners = [], observers = [], issued = 0\<rparr>"

definition requestAnimationFrame :: "browser \<Rightarrow> nat \<times> browser" where
  "requestAnimationFrame b =
     (Suc (issued b), b\<lparr>frames := frames b @ [Suc (issued b)], issued := Suc (issued b)\<rparr>)"

definition cancelAnimationFrame :: "nat \<Rightarrow> browser \<Rightarrow> browser" where
  "cancelAnimationFrame h b = b\<lparr>frames := removeAll h (frames b)\<rparr>"

definition setInterval :: "browser \<Rightarrow> nat \<times> browser" where
  "setInterval b =
     (Suc (issued b), b\<lparr>intervals := intervals b @ [Suc (issued b)], issued := Suc (issued b)\<rparr>)"

definition clearInterval :: "nat \<Rightarrow> browser \<Rightarrow> browser" where
  "clearInterval h b = b\<lparr>intervals := removeAll h (intervals b)\<rparr>"

definition addEventListener :: "string \<times> string \<Rightarrow> browser \<Rightarrow> browser" where
  "addEventListener k b = b\<lparr>listeners := List.insert k (listeners b)\<rparr>"

definition removeEventListener :: "string \<times> string \<Rightarrow> browser \<Rightarrow> browser" where
  "removeEventListener k b = b\<lparr>listeners := removeAll k (listeners b)\<rparr>"

text \<open>
  \<^verbatim>\<open>new IntersectionObserver(callback)\<close> or \<^verbatim>\<open>new ResizeObserver(callback)\<close> issues the
  observer's handle; the browser holds the observer from its first \<^verbatim>\<open>observe(target)\<close>
  until \<^verbatim>\<open>disconnect()\<close>.
\<close>

definition new_observer :: "browser \<Rightarrow> nat \<times> browser" where
  "new_observer b = (Suc (issued b), b\<lparr>issued := Suc (issued b)\<rparr>)"

definition observe :: "nat \<Rightarrow> browser \<Rightarrow> browser" where
  "observe h b = b\<lparr>observers := List.insert h (observers b)\<rparr>"

definition disconnect :: "nat \<Rightarrow> browser \<Rightarrow> browser" where
  "disconnect h b = b\<lparr>observers := removeAll h (observers b)\<rparr>"

text \<open>The number of subscriptions the browser still holds.\<close>

definition outstanding :: "browser \<Rightarrow> nat" where
  "outstanding b =
     length (frames b) + length (intervals b) + length (listeners b) + length (observers b)"

section \<open>useParallaxRelative (src/App.jsx): the parallax driver\<close>

text \<open>
  The effect's local variables \<^verbatim>\<open>containerTop\<close>, \<^verbatim>\<open>lastY\<close> and \<^verbatim>\<open>raf\<close> (0 when no
  frame is requested), the scroll position \<^verbatim>\<open>y\<close> that the requested frame callback has
  captured, and the pixel offset the hook last wrote into \<^verbatim>\<open>bg.style.transform\<close>
  (\<open>None\<close> until it writes). Scroll positions and offsets are modelled as real numbers.
\<close>

record parallax =
  containerTop :: real
  lastY :: real
  raf :: nat
  frameY :: real
  bgOffset :: "real option"

text \<open>
  \<^verbatim>\<open>getContainerTop = container.getBoundingClientRect().top + window.scrollY\<close>; the
  rectangle's top and the scroll position are what the browser reports at the call.
\<close>

definition getContainerTop :: "real \<Rightarrow> real \<Rightarrow> real" where
  "getContainerTop rectTop scrollY = rectTop + scrollY"

text \<open>
  \<^verbatim>\<open>onScroll\<close>: nothing under reduced motion or when \<^verbatim>\<open>y === lastY\<close>; otherwise
  \<^verbatim>\<open>lastY = y\<close> and \<^verbatim>\<open>raf ||= requestAnimationFrame(...)\<close>, which requests a frame only
  when none is pending.
\<close>

definition onScroll :: "bool \<Rightarrow> real \<Rightarrow> browser \<times> parallax \<Rightarrow> browser \<times> parallax" where
  "onScroll reduced y bp =
     (case bp of (b, p) \<Rightarrow>
        if reduced then (b, p)
        else if y = lastY p then (b, p)
        else if raf p \<noteq> 0 then (b, p\<lparr>lastY := y\<rparr>)
        else (case requestAnimationFrame b of
                (h, b') \<Rightarrow> (b', p\<lparr>lastY := y, raf := h, frameY := y\<rparr>)))"

text \<open>
  The requested frame callback, run by the browser when the request is still pending:
  \<^verbatim>\<open>localY = y - containerTop; offset = localY * speed\<close>, the transform is written and
  \<^verbatim>\<open>raf = 0\<close>.
\<close>

definition parallax_frame :: "real \<Rightarrow> browser \<times> parallax \<Rightarrow> browser \<times> parallax" where
  "parallax_frame speed bp =
     (case bp of (b, p) \<Rightarrow>
        if raf p \<in> set (frames b)
        then (b\<lparr>frames := removeAll (raf p) (frames b)\<rparr>,
              p\<lparr>bgOffset := Some ((frameY p - containerTop p) * speed), raf := 0\<rparr>)
        else (b, p))"

text \<open>\<^verbatim>\<open>onResize\<close>: \<^verbatim>\<open>containerTop = getContainerTop(); lastY = -1; onScroll()\<close>.\<close>

definition onResize :: "bool \<Rightarrow> real \<Rightarrow> real \<Rightarrow> browser \<times> parallax \<Rightarrow> browser \<times> parallax" where
  "onResize reduced rectTop y bp =
     (case bp of (b, p) \<Rightarrow>
        onScroll reduced y (b, p\<lparr>containerTop := getContainerTop rectTop y, lastY := - 1\<rparr>))"

text \<open>
  The effect body. Without a background element or a container it returns at once, with
  no cleanup function (\<open>None\<close>). Otherwise it initialises the variables, calls
  \<^verbatim>\<open>onResize()\<close> and registers the two listeners.
\<close>

definition useParallaxRelative ::
  "bool \<Rightarrow> bool \<Rightarrow> real \<Rightarrow> real \<Rightarrow> browser \<Rightarrow> browser \<times> parallax option" where
  "useParallaxRelative present reduced rectTop y b =
     (if \<not> present then (b, None)
      else (case onResize reduced rectTop y
                   (b, \<lparr>containerTop = getContainerTop rectTop y, lastY = - 1, raf = 0,
                        frameY = 0, bgOffset = None\<rparr>) of
              (b1, p) \<Rightarrow>
                (addEventListener (''resize'', ''onResize'')
                   (addEventListener (''scroll'', ''onScroll'') b1), Some p)))"

text \<open>The cleanup function the effect returns.\<close>

definition parallax_cleanup :: "parallax \<Rightarrow> browser \<Rightarrow> browser" where
  "parallax_cleanup p b =
     (let b1 = removeEventListener (''scroll'', ''onScroll'') b;
          b2 = removeEventListener (''resize'', ''onResize'') b1
      in if raf p \<noteq> 0 then cancelAnimationFrame (raf p) b2 else b2)"

text \<open>
  The events of a mounted driver: the window scrolls to \<open>y\<close>, the window is resized (the
  container's rectangle top and the scroll position at that moment), the browser renders a
  frame. A handler runs only while its listener is registered.
\<close>

datatype parallax_event = Scroll real | Resize real real | Frame

fun parallax_step ::
  "bool \<Rightarrow> real \<Rightarrow> parallax_event \<Rightarrow> browser \<times> parallax \<Rightarrow> browser \<times> parallax" where
  "parallax_step reduced speed (Scroll y) bp =
     (if (''scroll'', ''onScroll'') \<in> set (listeners (fst bp)) then onScroll reduced y bp else bp)"
| "parallax_step reduced speed (Resize rectTop y) bp =
     (if (''resize'', ''onResize'') \<in> set (listeners (fst bp))
      then onResize reduced rectTop y bp else bp)"
| "parallax_step reduced speed Frame bp = parallax_frame speed bp"

fun parallax_run ::
  "bool \<Rightarrow> real \<Rightarrow> parallax_event list \<Rightarrow> browser \<times> parallax \<Rightarrow> browser \<times> parallax" where
  "parallax_run reduced speed [] bp = bp"
| "parallax_run reduced speed (ev # evs) bp =
     parallax_run reduced speed evs (parallax_step reduced speed ev bp)"






section \<open>The section-activity observer of App (src/App.jsx)\<close>

text \<open>
  \<^verbatim>\<open>active\<close> is a \<^verbatim>\<open>useState\<close> cell holding a section id, initially \<^verbatim>\<open>"services"\<close>.
  The observer's callback receives a batch of entries, each with its target's id and
  \<^verbatim>\<open>isIntersecting\<close>, and runs
  \<^verbatim>\<open>entries.forEach((entry) => { if (entry.isIntersecting) setActive(entry.target.id) })\<close>.
\<close>

definition sections :: "(string \<times> string) list" where
  "sections = [(''services'', ''Services''), (''process'', ''Process''),
               (''gallery'', ''Gallery''), (''contact'', ''Contact'')]"

definition active_init :: string where
  "active_init = ''services''"

fun section_callback :: "(string \<times> bool) list \<Rightarrow> string \<Rightarrow> string" where
  "section_callback [] active = active"
| "section_callback ((target, isIntersecting) # entries) active =
     section_callback entries (if isIntersecting then target else active)"

fun section_run :: "(string \<times> bool) list list \<Rightarrow> string \<Rightarrow> string" where
  "section_run [] active = active"
| "section_run (entries # batches) active = section_run batches (section_callback entries active)"

text \<open>
  The effect creates the observer and observes every section whose element the document
  has (\<^verbatim>\<open>if (el) obs.observe(el)\<close>); its cleanup is \<^verbatim>\<open>obs.disconnect()\<close>.
\<close>

fun observe_sections :: "string list \<Rightarrow> string list \<Rightarrow> nat \<Rightarrow> browser \<Rightarrow> browser" where
  "observe_sections document [] obs b = b"
| "observe_sections document (i # ids) obs b =
     observe_sections document ids obs (if i \<in> set document then observe obs b else b)"

definition section_effect :: "string list \<Rightarrow> string list \<Rightarrow> browser \<Rightarrow> browser \<times> nat" where
  "section_effect document ids b =
     (case new_observer b of (obs, b1) \<Rightarrow> (observe_sections document ids obs b1, obs))"

definition section_cleanup :: "nat \<Rightarrow> browser \<Rightarrow> browser" where
  "section_cleanup obs b = disconnect obs b"

section \<open>AutoScrollGallery (src/components/AutoScrollGallery.jsx): the infinite strip\<close>

subsection \<open>The images prop and its normalisation\<close>

text \<open>
  The \<^verbatim>\<open>images\<close> prop is whatever JavaScript value the caller passes. An object is the list
  of its properties. (Functions, symbols and big integers are left out.)
\<close>

datatype js_value =
    JUndefined
  | JNull
  | JBool bool
  | JNumber real
  | JNaN
  | JString string
  | JObject "(string \<times> js_value) list"
  | JArray "js_value list"

text \<open>\<^verbatim>\<open>Boolean(v)\<close>: the falsy values are undefined, null, false, 0, NaN and the empty string.\<close>

fun truthy :: "js_value \<Rightarrow> bool" where
  "truthy JUndefined = False"
| "truthy JNull = False"
| "truthy (JBool v) = v"
| "truthy (JNumber x) = (x \<noteq> 0)"
| "truthy JNaN = False"
| "truthy (JString s) = (s \<noteq> [])"
| "truthy (JObject ps) = True"
| "truthy (JArray vs) = True"

text \<open>\<^verbatim>\<open>(img) => (typeof img === "string" ? { src: img } : img)\<close>.\<close>

fun to_image :: "js_value \<Rightarrow> js_value" where
  "to_image (JString s) = JObject [(''src'', JString s)]"
| "to_image img = img"

text \<open>
  \<^verbatim>\<open>safeImages\<close>: \<^verbatim>\<open>list = Array.isArray(images) ? images : []\<close>, then
  \<^verbatim>\<open>list.filter(Boolean).map(...)\<close>.
\<close>

definition safeImages :: "js_value \<Rightarrow> js_value list" where
  "safeImages images =
     (let list = (case images of JArray vs \<Rightarrow> vs | _ \<Rightarrow> [])
      in map to_image (filter truthy list))"

definition hasLoop :: "js_value \<Rightarrow> bool" where
  "hasLoop images = (length (safeImages images) \<ge> 2)"

text \<open>\<^verbatim>\<open>track = hasLoop ? [...safeImages, ...safeImages] : safeImages\<close>.\<close>

definition track :: "js_value \<Rightarrow> js_value list" where
  "track images =
     (if hasLoop images then safeImages images @ safeImages images else safeImages images)"

subsection \<open>The scroll container and the two effects\<close>

text \<open>
  JavaScript's \<^verbatim>\<open>%\<close> on numbers that need not be integral: \<open>a - n * trunc (a / n)\<close>, the
  quotient truncated towards zero. Pixel offsets, widths and timestamps are modelled as
  real numbers, and \<^verbatim>\<open>scrollLeft\<close> as the number the code assigns to it.
\<close>

definition js_trunc :: "real \<Rightarrow> int" where
  "js_trunc x = (if x < 0 then \<lceil>x\<rceil> else \<lfloor>x\<rfloor>)"

definition js_rem :: "real \<Rightarrow> real \<Rightarrow> real" where
  "js_rem a n = a - n * of_int (js_trunc (a / n))"

text \<open>
  The scroll container's \<^verbatim>\<open>scrollLeft\<close> and \<^verbatim>\<open>scrollWidth\<close>, the \<^verbatim>\<open>isPaused\<close> state
  cell, the ticker effect's locals \<^verbatim>\<open>prev\<close>, \<^verbatim>\<open>rafId\<close> and \<^verbatim>\<open>ro\<close>, and the visibility
  effect's \<^verbatim>\<open>io\<close>. A handle is 0 while its variable is unset. The container element is
  always rendered, so \<^verbatim>\<open>containerRef.current\<close> is never null in an effect.
\<close>

record strip =
  scrollLeft :: real
  scrollWidth :: real
  isPaused :: bool
  prev :: real
  rafId :: nat
  ro :: nat
  io :: nat

text \<open>
  The ticker effect: it returns at once (no cleanup function) without a loop or under
  reduced motion; otherwise \<^verbatim>\<open>prev = performance.now()\<close>, the first frame is requested
  and a \<^verbatim>\<open>ResizeObserver\<close> observes the container.
\<close>

definition ticker_effect :: "js_value \<Rightarrow> bool \<Rightarrow> real \<Rightarrow> browser \<times> strip \<Rightarrow> browser \<times> strip" where
  "ticker_effect images reduced now bs =
     (case bs of (b, s) \<Rightarrow>
        if \<not> hasLoop images then (b, s)
        else if reduced then (b, s)
        else (case requestAnimationFrame b of
                (h, b1) \<Rightarrow>
                  (case new_observer b1 of
                     (r, b2) \<Rightarrow> (observe r b2, s\<lparr>prev := now, rafId := h, ro := r\<rparr>))))"

text \<open>Its cleanup: \<^verbatim>\<open>cancelAnimationFrame(rafId); ro.disconnect()\<close>.\<close>

definition ticker_cleanup :: "js_value \<Rightarrow> bool \<Rightarrow> browser \<times> strip \<Rightarrow> browser \<times> strip" where
  "ticker_cleanup images reduced bs =
     (case bs of (b, s) \<Rightarrow>
        if \<not> hasLoop images then (b, s)
        else if reduced then (b, s)
        else (disconnect (ro s) (cancelAnimationFrame (rafId s) b), s))"

text \<open>
  \<^verbatim>\<open>step(ts)\<close>: the elapsed time is clamped to 50 ms; unless paused, the offset advances
  by \<^verbatim>\<open>speed / 1000 * dt\<close> and is reduced by half the scroll width once when it has
  reached it; the next frame is requested.
\<close>

definition step :: "real \<Rightarrow> real \<Rightarrow> browser \<times> strip \<Rightarrow> browser \<times> strip" where
  "step speed ts bs =
     (case bs of (b, s) \<Rightarrow>
        let dt = min (ts - prev s) 50;
            s1 = s\<lparr>prev := ts\<rparr>;
            s2 = (if \<not> isPaused s1
                  then (let pxPerMs = speed / 1000;
                            s3 = s1\<lparr>scrollLeft := scrollLeft s1 + pxPerMs * dt\<rparr>;
                            half = scrollWidth s3 / 2
                        in if scrollLeft s3 \<ge> half
                           then s3\<lparr>scrollLeft := scrollLeft s3 - half\<rparr> else s3)
                  else s1)
        in (case requestAnimationFrame b of (h, b1) \<Rightarrow> (b1, s2\<lparr>rafId := h\<rparr>)))"

text \<open>The browser renders a frame at time \<open>ts\<close>: the requested callback runs.\<close>

definition strip_frame :: "real \<Rightarrow> real \<Rightarrow> browser \<times> strip \<Rightarrow> browser \<times> strip" where
  "strip_frame speed ts bs =
     (case bs of (b, s) \<Rightarrow>
        if rafId s \<in> set (frames b)
        then step speed ts (b\<lparr>frames := removeAll (rafId s) (frames b)\<rparr>, s)
        else (b, s))"

text \<open>
  The \<^verbatim>\<open>ResizeObserver\<close> callback \<^verbatim>\<open>onResize\<close> of the strip:
  \<^verbatim>\<open>if (half > 0) el.scrollLeft = el.scrollLeft % half\<close>.
\<close>

definition onResize_strip :: "strip \<Rightarrow> strip" where
  "onResize_strip s =
     (let half = scrollWidth s / 2
      in if half > 0 then s\<lparr>scrollLeft := js_rem (scrollLeft s) half\<rparr> else s)"

text \<open>
  \<^verbatim>\<open>setIsPaused(v)\<close>. \<^verbatim>\<open>isPaused\<close> is a dependency of the ticker effect: when the value
  changes, the effect's cleanup runs and the effect runs again (at time \<open>now\<close>). Setting
  the value it already has changes nothing.
\<close>

definition setIsPaused ::
  "js_value \<Rightarrow> bool \<Rightarrow> real \<Rightarrow> bool \<Rightarrow> browser \<times> strip \<Rightarrow> browser \<times> strip" where
  "setIsPaused images reduced now v bs =
     (case bs of (b, s) \<Rightarrow>
        if isPaused s = v then (b, s)
        else ticker_effect images reduced now
               (ticker_cleanup images reduced (b, s\<lparr>isPaused := v\<rparr>)))"

text \<open>
  The visibility effect: without \<^verbatim>\<open>IntersectionObserver\<close> in the window it returns at
  once; otherwise an observer with threshold 0.01 observes the container. Its callback
  is \<^verbatim>\<open>entries.forEach((entry) => { if (!entry.isIntersecting) setIsPaused(true) })\<close>;
  an entry is modelled by its \<^verbatim>\<open>isIntersecting\<close>.
\<close>

definition visibility_effect :: "bool \<Rightarrow> browser \<times> strip \<Rightarrow> browser \<times> strip" where
  "visibility_effect hasIO bs =
     (case bs of (b, s) \<Rightarrow>
        if \<not> hasIO then (b, s)
        else (case new_observer b of (h, b1) \<Rightarrow> (observe h b1, s\<lparr>io := h\<rparr>)))"

definition visibility_cleanup :: "bool \<Rightarrow> browser \<times> strip \<Rightarrow> browser \<times> strip" where
  "visibility_cleanup hasIO bs =
     (case bs of (b, s) \<Rightarrow> if \<not> hasIO then (b, s) else (disconnect (io s) b, s))"

fun io_callback ::
  "js_value \<Rightarrow> bool \<Rightarrow> real \<Rightarrow> bool list \<Rightarrow> browser \<times> strip \<Rightarrow> browser \<times> strip" where
  "io_callback images reduced now [] bs = bs"
| "io_callback images reduced now (isIntersecting # entries) bs =
     io_callback images reduced now entries
       (if \<not> isIntersecting then setIsPaused images reduced now True bs else bs)"

text \<open>
  Mounting the component at time \<open>now\<close> with a container of scroll width \<open>sw\<close>: the
  offset starts at 0 and \<^verbatim>\<open>isPaused\<close> at false, and the two effects run in order.
  Unmounting runs their cleanups.
\<close>

definition strip_mount ::
  "js_value \<Rightarrow> bool \<Rightarrow> bool \<Rightarrow> real \<Rightarrow> real \<Rightarrow> browser \<Rightarrow> browser \<times> strip" where
  "strip_mount images reduced hasIO now sw b =
     visibility_effect hasIO
       (ticker_effect images reduced now
          (b, \<lparr>scrollLeft = 0, scrollWidth = sw, isPaused = False, prev = now,
               rafId = 0, ro = 0, io = 0\<rparr>))"

definition strip_unmount :: "js_value \<Rightarrow> bool \<Rightarrow> bool \<Rightarrow> browser \<times> strip \<Rightarrow> browser \<times> strip" where
  "strip_unmount images reduced hasIO bs =
     visibility_cleanup hasIO (ticker_cleanup images reduced bs)"

text \<open>
  The events of a mounted strip: a frame is rendered at time \<open>ts\<close>; the layout changes
  the container's scroll width to \<open>sw\<close> and the resize observer, while connected, runs
  \<^verbatim>\<open>onResize\<close>; the intersection observer, while connected, reports a batch of entries;
  the pointer enters or leaves the region (handled only with \<^verbatim>\<open>pauseOnHover\<close>).
\<close>

datatype strip_event =
    FrameAt real
  | ResizeTo real
  | Intersection real "bool list"
  | PointerEnter real
  | PointerLeave real

fun strip_step ::
  "js_value \<Rightarrow> real \<Rightarrow> bool \<Rightarrow> bool \<Rightarrow> strip_event \<Rightarrow> browser \<times> strip \<Rightarrow> browser \<times> strip" where
  "strip_step images speed pauseOnHover reduced (FrameAt ts) bs = strip_frame speed ts bs"
| "strip_step images speed pauseOnHover reduced (ResizeTo sw) bs =
     (case bs of (b, s) \<Rightarrow>
        if ro s \<in> set (observers b) then (b, onResize_strip (s\<lparr>scrollWidth := sw\<rparr>))
        else (b, s\<lparr>scrollWidth := sw\<rparr>))"
| "strip_step images speed pauseOnHover reduced (Intersection now entries) bs =
     (if io (snd bs) \<in> set (observers (fst bs))
      then io_callback images reduced now entries bs else bs)"
| "strip_step images speed pauseOnHover reduced (PointerEnter now) bs =
     (if pauseOnHover then setIsPaused images reduced now True bs else bs)"
| "strip_step images speed pauseOnHover reduced (PointerLeave now) bs =
     (if pauseOnHover then setIsPaused images reduced now False bs else bs)"

fun strip_run ::
  "js_value \<Rightarrow> real \<Rightarrow> bool \<Rightarrow> bool \<Rightarrow> strip_event list \<Rightarrow> browser \<times> strip \<Rightarrow> browser \<times> strip" where
  "strip_run images speed pauseOnHover reduced [] bs = bs"
| "strip_run images speed pauseOnHover reduced (ev # evs) bs =
     strip_run images speed pauseOnHover reduced evs
       (strip_step images speed pauseOnHover reduced ev bs)"

subsection \<open>Predicates on the strip's state and on its event sequences\<close>






text \<open>Recognisers for the kinds of JavaScript value, and the object \<^verbatim>\<open>{ src: u }\<close>.\<close>

definition is_array :: "js_value \<Rightarrow> bool" where
  "is_array v = (case v of JArray vs \<Rightarrow> True | _ \<Rightarrow> False)"

definition is_string :: "js_value \<Rightarrow> bool" where
  "is_string v = (case v of JString s \<Rightarrow> True | _ \<Rightarrow> False)"

definition src_object :: "string \<Rightarrow> js_value" where
  "src_object u = JObject [(''src'', JString u)]"

section \<open>Teardown of the components\<close>

text \<open>
  A parallax driver that was mounted at scroll position \<open>y\<close> on an otherwise empty page
  and then lived through the events \<open>evs\<close>; its teardown runs the cleanup function when
  the effect returned one.
\<close>

definition parallax_life ::
  "bool \<Rightarrow> bool \<Rightarrow> real \<Rightarrow> real \<Rightarrow> real \<Rightarrow> parallax_event list \<Rightarrow> browser \<times> parallax option" where
  "parallax_life present reduced speed rectTop y evs =
     (case useParallaxRelative present reduced rectTop y browser_init of
        (b, None) \<Rightarrow> (b, None)
      | (b, Some p) \<Rightarrow>
          (case parallax_run reduced speed evs (b, p) of (b', p') \<Rightarrow> (b', Some p')))"

definition parallax_teardown :: "parallax option \<Rightarrow> browser \<Rightarrow> browser" where
  "parallax_teardown po b = (case po of None \<Rightarrow> b | Some p \<Rightarrow> parallax_cleanup p b)"

text \<open>
  The three effects of the sliding carousel, as they stand for a state \<open>c\<close>: the autoplay
  interval (not installed when paused or without slides; cleanup \<^verbatim>\<open>clearInterval(id)\<close>),
  the \<^verbatim>\<open>transitionend\<close> listener on the track (cleanup \<^verbatim>\<open>removeEventListener\<close>), and the
  frame request that re-enables animation (only while \<^verbatim>\<open>isAnimating\<close> is false; cleanup
  \<^verbatim>\<open>cancelAnimationFrame(id)\<close>). An effect that returned early has no handle (\<open>None\<close>)
  and no cleanup.
\<close>

definition autoplay_effect :: "'a list \<Rightarrow> carousel \<Rightarrow> browser \<Rightarrow> browser \<times> nat option" where
  "autoplay_effect images c b =
     (if paused c \<or> length (slides images) = 0 then (b, None)
      else (case setInterval b of (h, b1) \<Rightarrow> (b1, Some h)))"

definition autoplay_cleanup :: "nat option \<Rightarrow> browser \<Rightarrow> browser" where
  "autoplay_cleanup ho b = (case ho of None \<Rightarrow> b | Some h \<Rightarrow> clearInterval h b)"

definition transitionend_effect :: "browser \<Rightarrow> browser" where
  "transitionend_effect b = addEventListener (''transitionend'', ''onEnd'') b"

definition transitionend_cleanup :: "browser \<Rightarrow> browser" where
  "transitionend_cleanup b = removeEventListener (''transitionend'', ''onEnd'') b"

definition reenable_effect :: "carousel \<Rightarrow> browser \<Rightarrow> browser \<times> nat option" where
  "reenable_effect c b =
     (if isAnimating c then (b, None)
      else (case requestAnimationFrame b of (h, b1) \<Rightarrow> (b1, Some h)))"

definition reenable_cleanup :: "nat option \<Rightarrow> browser \<Rightarrow> browser" where
  "reenable_cleanup ho b = (case ho of None \<Rightarrow> b | Some h \<Rightarrow> cancelAnimationFrame h b)"

definition carousel_mount ::
  "'a list \<Rightarrow> carousel \<Rightarrow> browser \<Rightarrow> browser \<times> nat option \<times> nat option" where
  "carousel_mount images c b =
     (case autoplay_effect images c b of
        (b1, timer) \<Rightarrow>
          (case reenable_effect c (transitionend_effect b1) of
             (b2, frame) \<Rightarrow> (b2, timer, frame)))"

definition carousel_unmount :: "nat option \<times> nat option \<Rightarrow> browser \<Rightarrow> browser" where
  "carousel_unmount hs b =
     (case hs of (timer, frame) \<Rightarrow>
        reenable_cleanup frame (transitionend_cleanup (autoplay_cleanup timer b)))"

text \<open>
  Ownership: everything the browser holds is covered by what the component's cleanup
  revokes. For the parallax driver these are its two listeners and the frame \<^verbatim>\<open>raf\<close>
  names; for the strip the frame \<^verbatim>\<open>rafId\<close> names and the observer \<^verbatim>\<open>ro\<close> (when the
  ticker effect ran) and the observer \<^verbatim>\<open>io\<close> (when the visibility effect ran).
\<close>

definition parallax_owned :: "browser \<times> parallax \<Rightarrow> bool" where
  "parallax_owned bp =
     (intervals (fst bp) = [] \<and> observers (fst bp) = []
      \<and> set (listeners (fst bp)) \<subseteq> {(''scroll'', ''onScroll''), (''resize'', ''onResize'')}
      \<and> set (frames (fst bp)) \<subseteq> {raf (snd bp)} \<and> 0 \<notin> set (frames (fst bp)))"

definition strip_owned :: "js_value \<Rightarrow> bool \<Rightarrow> bool \<Rightarrow> browser \<times> strip \<Rightarrow> bool" where
  "strip_owned images reduced hasIO bs =
     (intervals (fst bs) = [] \<and> listeners (fst bs) = []
      \<and> set (frames (fst bs))
          \<subseteq> (if hasLoop images \<and> \<not> reduced then {rafId (snd bs)} else {})
      \<and> set (observers (fst bs))
          \<subseteq> (if hasLoop images \<and> \<not> reduced then {ro (snd bs)} else {})
            \<union> (if hasIO then {io (snd bs)} else {}))"

section \<open>The sliding carousel: the snap at the clone slots\<close>

lemma length_slides: "length (slides images) = (if images = [] then 0 else length images + 2)"
  by (simp add: slides_def)

text \<open>
  C3. For an image list of length \<open>N \<ge> 1\<close>, the transition-end handler at the trailing
  clone slot \<open>N + 1\<close> disables animation and sets the index to 1; at the leading clone slot
  0 it disables animation and sets the index to \<open>N\<close>. After either snap, the next rendered
  frame re-enables animation and leaves the index where the snap put it.
\<close>

theorem C3_clone_snap:
  assumes "1 \<le> length images"
  shows "(index c = int (length images) + 1 \<longrightarrow>
            carousel_step images TransitionEnd c = c\<lparr>isAnimating := False, index := 1\<rparr>)
       \<and> (index c = 0 \<longrightarrow>
            carousel_step images TransitionEnd c
              = c\<lparr>isAnimating := False, index := int (length images)\<rparr>)
       \<and> (index c = int (length images) + 1 \<or> index c = 0 \<longrightarrow>
            carousel_step images AnimationFrame (carousel_step images TransitionEnd c)
              = (carousel_step images TransitionEnd c)\<lparr>isAnimating := True\<rparr>)"
proof -
  from assms have ne: "images \<noteq> []" by auto
  then have len: "int (length (slides images)) = int (length images) + 2"
    by (simp add: length_slides)
  show ?thesis
    using assms by (auto simp: onEnd_def len reenable_frame_def)
qed

theorem C3_clone_snap_witness:
  "carousel_step [''a'', ''b'', ''c''] TransitionEnd \<lparr>index = 4, isAnimating = True, paused = False\<rparr>
     = \<lparr>index = 1, isAnimating = False, paused = False\<rparr>
   \<and> carousel_step [''a'', ''b'', ''c''] TransitionEnd \<lparr>index = 0, isAnimating = True, paused = False\<rparr>
     = \<lparr>index = 3, isAnimating = False, paused = False\<rparr>
   \<and> carousel_step [''a'', ''b'', ''c''] AnimationFrame
        (carousel_step [''a'', ''b'', ''c''] TransitionEnd \<lparr>index = 4, isAnimating = True, paused = False\<rparr>)
     = \<lparr>index = 1, isAnimating = True, paused = False\<rparr>"
  using C3_clone_snap [of "[''a'', ''b'', ''c'']" "\<lparr>index = 4, isAnimating = True, paused = False\<rparr>"]
        C3_clone_snap [of "[''a'', ''b'', ''c'']" "\<lparr>index = 0, isAnimating = True, paused = False\<rparr>"]
  by auto

text \<open>
  C1. The specification requires that for every image list of length \<open>N \<ge> 1\<close> and every
  finite sequence of autoplay ticks, previous/next clicks, dot selections and
  transition-end events the index stays within \<open>[0, N + 1]\<close> and the displayed real
  index within \<open>[0, N - 1]\<close>. The code does not keep it: \<^verbatim>\<open>go\<close> and the interval
  callback add to the index without a bound, and \<^verbatim>\<open>onEnd\<close> compares with \<^verbatim>\<open>===\<close>
  against the two clone slots only. With two images (\<open>N = 2\<close>, slots 0..3), three clicks
  on "previous" before any transition ends give index \<open>-2\<close> and real index \<open>-1\<close>; three
  clicks on "next" give index 4, and the transition-end handler leaves that index where
  it is.
\<close>

theorem C1_rapid_navigation_leaves_bounds:
  "index (carousel_run [''a'', ''b''] [PrevClick, PrevClick, PrevClick] carousel_init) = - 2
   \<and> realIndex [''a'', ''b'']
        (carousel_run [''a'', ''b''] [PrevClick, PrevClick, PrevClick] carousel_init) = - 1
   \<and> index (carousel_run [''a'', ''b''] [NextClick, NextClick, NextClick] carousel_init) = 4
   \<and> index (carousel_run [''a'', ''b''] [NextClick, NextClick, NextClick, TransitionEnd]
        carousel_init) = 4"
  by (simp add: carousel_init_def go_def realIndex_def js_rem_int_def onEnd_def slides_def)

section \<open>The sliding carousel when every move is allowed to finish\<close>

lemma js_rem_int_nonneg:
  "0 \<le> a \<Longrightarrow> 0 < n \<Longrightarrow> js_rem_int a n = a mod n"
  by (cases "a = 0") (simp_all add: js_rem_int_def)

lemma realIndex_in_slots:
  assumes "1 \<le> length images" and "0 \<le> index c" and "index c \<le> int (length images) + 1"
  shows "0 \<le> realIndex images c \<and> realIndex images c \<le> int (length images) - 1"
proof -
  let ?n = "int (length images)"
  have n: "0 < ?n" using assms(1) by auto
  have ne: "images \<noteq> []" using assms(1) by auto
  have "0 \<le> index c - 1 + ?n" using assms(2) n by linarith
  then have "js_rem_int (index c - 1 + ?n) ?n = (index c - 1 + ?n) mod ?n"
    using n by (rule js_rem_int_nonneg)
  then have "realIndex images c = (index c - 1 + ?n) mod ?n"
    using ne by (simp add: realIndex_def)
  moreover have "0 \<le> (index c - 1 + ?n) mod ?n" "(index c - 1 + ?n) mod ?n < ?n"
    using n by simp_all
  ultimately show ?thesis by simp
qed

text \<open>
  X1. From a real slide (index in \<open>[1, N]\<close>, \<open>N \<ge> 1\<close>), one move (previous, next or an
  autoplay tick) followed by the end of its transition keeps the index within the slots
  \<open>[0, N + 1]\<close> and brings it back to a real slide; the displayed real index stays within
  \<open>[0, N - 1]\<close> and is the same before and after the snap. A dot click goes straight to
  its real slide.
\<close>

theorem carousel_completed_moves_in_bounds:
  assumes "1 \<le> length images" and "1 \<le> index c" and "index c \<le> int (length images)"
    and "m \<in> {PrevClick, NextClick, AutoplayTick}"
  shows "0 \<le> index (carousel_step images m c)
       \<and> index (carousel_step images m c) \<le> int (length images) + 1
       \<and> 0 \<le> realIndex images (carousel_step images m c)
       \<and> realIndex images (carousel_step images m c) \<le> int (length images) - 1
       \<and> 1 \<le> index (carousel_run images [m, TransitionEnd] c)
       \<and> index (carousel_run images [m, TransitionEnd] c) \<le> int (length images)
       \<and> realIndex images (carousel_run images [m, TransitionEnd] c)
           = realIndex images (carousel_step images m c)
       \<and> (i < length images \<longrightarrow>
            index (carousel_step images (DotClick i) c) = int i + 1
          \<and> realIndex images (carousel_step images (DotClick i) c) = int i)"
proof -
  let ?n = "int (length images)"
  from assms(1) have ne: "images \<noteq> []" by auto
  then have len: "int (length (slides images)) = ?n + 2"
    by (simp add: length_slides)
  have n: "0 < ?n" using assms(1) by auto
  let ?c1 = "carousel_step images m c"
  have i1: "0 \<le> index ?c1 \<and> index ?c1 \<le> ?n + 1"
    using assms(2-4) by (auto simp: go_def autoplay_tick_def)
  then have r1: "0 \<le> realIndex images ?c1 \<and> realIndex images ?c1 \<le> ?n - 1"
    using realIndex_in_slots [OF assms(1)] by blast
  let ?c2 = "onEnd images ?c1"
  have n1: "1 \<le> ?n" using n by linarith
  have i2: "1 \<le> index ?c2 \<and> index ?c2 \<le> ?n"
    using i1 n1 by (simp add: onEnd_def len del: of_nat_le_iff One_nat_def)
  have ri: "realIndex images d = (index d - 1 + ?n) mod ?n" if "0 \<le> index d" for d
  proof -
    from that n have "0 \<le> index d - 1 + ?n" by linarith
    then have "js_rem_int (index d - 1 + ?n) ?n = (index d - 1 + ?n) mod ?n"
      using n by (rule js_rem_int_nonneg)
    then show ?thesis using ne by (simp add: realIndex_def)
  qed
  have r2: "realIndex images ?c2 = realIndex images ?c1"
  proof -
    consider "index ?c1 = ?n + 1" | "index ?c1 = 0" | "1 \<le> index ?c1" "index ?c1 \<le> ?n"
      using i1 by linarith
    then show ?thesis
    proof cases
      case 1
      then have e: "index ?c2 = 1" by (simp add: onEnd_def len)
      have "realIndex images ?c2 = (1 - 1 + ?n) mod ?n"
        using ri [of ?c2] e by simp
      moreover have "realIndex images ?c1 = (?n + 1 - 1 + ?n) mod ?n"
        using ri [of ?c1] 1 n by simp
      ultimately show ?thesis by simp
    next
      case 2
      then have e: "index ?c2 = ?n" using n by (simp add: onEnd_def len)
      have "realIndex images ?c2 = (?n - 1 + ?n) mod ?n"
        using ri [of ?c2] e n by simp
      then have a: "realIndex images ?c2 = (?n - 1) mod ?n"
        by (simp only: mod_add_self2)
      have "realIndex images ?c1 = (0 - 1 + ?n) mod ?n"
        using ri [of ?c1] 2 by simp
      then have "realIndex images ?c1 = (?n - 1) mod ?n"
        by (simp add: algebra_simps)
      with a show ?thesis by simp
    next
      case 3
      then have "?c2 = ?c1" by (simp add: onEnd_def len)
      then show ?thesis by simp
    qed
  qed
  have dot: "i < length images \<longrightarrow>
            index (carousel_step images (DotClick i) c) = int i + 1
          \<and> realIndex images (carousel_step images (DotClick i) c) = int i"
  proof
    assume i: "i < length images"
    have "realIndex images (dot_click i c) = (int i + ?n) mod ?n"
      using ri [of "dot_click i c"] by (simp add: dot_click_def)
    also have "\<dots> = int i" using i by simp
    finally show "index (carousel_step images (DotClick i) c) = int i + 1
          \<and> realIndex images (carousel_step images (DotClick i) c) = int i"
      using i by (simp add: dot_click_def)
  qed
  have run: "carousel_run images [m, TransitionEnd] c = ?c2" by simp
  show ?thesis
    unfolding run using i1 r1 i2 r2 dot by blast
qed

theorem carousel_completed_moves_in_bounds_witness:
  "index (carousel_run [''a'', ''b'', ''c''] [NextClick, TransitionEnd]
           \<lparr>index = 3, isAnimating = True, paused = False\<rparr>) = 1
   \<and> realIndex [''a'', ''b'', ''c''] (carousel_step [''a'', ''b'', ''c''] NextClick
           \<lparr>index = 3, isAnimating = True, paused = False\<rparr>) = 0
   \<and> realIndex [''a'', ''b'', ''c''] (carousel_run [''a'', ''b'', ''c''] [NextClick, TransitionEnd]
           \<lparr>index = 3, isAnimating = True, paused = False\<rparr>) = 0"
  using carousel_completed_moves_in_bounds [of "[''a'', ''b'', ''c'']"
          "\<lparr>index = 3, isAnimating = True, paused = False\<rparr>" NextClick 0]
  by (simp add: go_def onEnd_def slides_def realIndex_def js_rem_int_def)



section \<open>The infinite strip: the offset invariant\<close>







lemma hasLoop_two: "hasLoop (JArray [JString ''a.avif'', JString ''b.avif''])"
  by (simp add: hasLoop_def safeImages_def)

lemma strip_mount_two:
  "strip_mount (JArray [JString ''a.avif'', JString ''b.avif'']) False True 0 sw browser_init
     = (\<lparr>frames = [1], intervals = [], listeners = [], observers = [3, 2], issued = 3\<rparr>,
        \<lparr>scrollLeft = 0, scrollWidth = sw, isPaused = False, prev = 0,
           rafId = 1, ro = 2, io = 3\<rparr>)"
  by (simp add: strip_mount_def ticker_effect_def visibility_effect_def hasLoop_two
        requestAnimationFrame_def new_observer_def observe_def browser_init_def)




section \<open>The infinite strip without a running ticker\<close>

lemma ticker_off_step:
  assumes "\<not> hasLoop images \<or> reduced"
    and "frames b = []" and "ro s \<notin> set (observers b)"
  shows "frames (fst (strip_step images speed poh reduced ev (b, s))) = []
       \<and> ro (snd (strip_step images speed poh reduced ev (b, s)))
           \<notin> set (observers (fst (strip_step images speed poh reduced ev (b, s))))
       \<and> scrollLeft (snd (strip_step images speed poh reduced ev (b, s))) = scrollLeft s"
proof -
  have off: "\<And>bs now. ticker_effect images reduced now bs = bs"
            "\<And>bs. ticker_cleanup images reduced bs = bs"
    using assms(1) by (auto simp: ticker_effect_def ticker_cleanup_def split: prod.splits)
  have sp: "\<And>now v b' s'. setIsPaused images reduced now v (b', s')
              = (b', s'\<lparr>isPaused := v\<rparr>)"
    by (auto simp: setIsPaused_def off)
  have io: "\<And>now entries b' s'.
      fst (io_callback images reduced now entries (b', s')) = b'
    \<and> ro (snd (io_callback images reduced now entries (b', s'))) = ro s'
    \<and> scrollLeft (snd (io_callback images reduced now entries (b', s'))) = scrollLeft s'"
  proof -
    fix now entries b' s'
    show "fst (io_callback images reduced now entries (b', s')) = b'
    \<and> ro (snd (io_callback images reduced now entries (b', s'))) = ro s'
    \<and> scrollLeft (snd (io_callback images reduced now entries (b', s'))) = scrollLeft s'"
      by (induction entries arbitrary: s') (auto simp: sp)
  qed
  show ?thesis
    using assms(2,3) by (cases ev) (auto simp: strip_frame_def sp io)
qed

lemma ticker_off_run:
  assumes "\<not> hasLoop images \<or> reduced"
  shows "frames (fst bs) = [] \<Longrightarrow> ro (snd bs) \<notin> set (observers (fst bs)) \<Longrightarrow>
         frames (fst (strip_run images speed poh reduced evs bs)) = []
       \<and> scrollLeft (snd (strip_run images speed poh reduced evs bs)) = scrollLeft (snd bs)"
proof (induction evs arbitrary: bs)
  case Nil
  then show ?case by simp
next
  case (Cons ev evs)
  obtain b s where bs: "bs = (b, s)" by (cases bs)
  from ticker_off_step [OF assms, of b s speed poh ev] Cons.prems bs
  have st: "frames (fst (strip_step images speed poh reduced ev bs)) = []"
    "ro (snd (strip_step images speed poh reduced ev bs))
       \<notin> set (observers (fst (strip_step images speed poh reduced ev bs)))"
    "scrollLeft (snd (strip_step images speed poh reduced ev bs)) = scrollLeft (snd bs)"
    by auto
  from Cons.IH [OF st(1,2)] st(3) show ?case by simp
qed

lemma ticker_off_mount:
  assumes "\<not> hasLoop images \<or> reduced"
  shows "frames (fst (strip_mount images reduced hasIO now sw browser_init)) = []
       \<and> ro (snd (strip_mount images reduced hasIO now sw browser_init))
            \<notin> set (observers (fst (strip_mount images reduced hasIO now sw browser_init)))
       \<and> scrollLeft (snd (strip_mount images reduced hasIO now sw browser_init)) = 0"
  using assms
  by (auto simp: strip_mount_def ticker_effect_def visibility_effect_def new_observer_def
        observe_def browser_init_def)

lemma strip_static_when_ticker_off:
  assumes "\<not> hasLoop images \<or> reduced"
  shows "frames (fst (strip_run images speed poh reduced evs
            (strip_mount images reduced hasIO now sw browser_init))) = []
       \<and> scrollLeft (snd (strip_run images speed poh reduced evs
            (strip_mount images reduced hasIO now sw browser_init))) = 0"
  using ticker_off_run [OF assms, of "strip_mount images reduced hasIO now sw browser_init"
          speed poh evs]
        ticker_off_mount [OF assms, of hasIO now sw]
  by simp

text \<open>
  C6. The specification states that an image list with fewer than two entries disables
  looping and autoplay in both carousels and renders a single pass. That is what the
  infinite strip does: with fewer than two normalised entries the track is the list
  itself, no frame is ever requested and the offset never leaves 0. The sliding carousel
  draws its line at the empty list: there it has no slides and its interval is never
  installed; a single image is clone-padded to three slides and autoplays like any other
  list.
\<close>

theorem C6_short_lists:
  assumes "length (safeImages images) < 2"
  shows "\<not> hasLoop images
       \<and> track images = safeImages images
       \<and> frames (fst (strip_run images speed pauseOnHover reduced evs
            (strip_mount images reduced hasIO now sw browser_init))) = []
       \<and> scrollLeft (snd (strip_run images speed pauseOnHover reduced evs
            (strip_mount images reduced hasIO now sw browser_init))) = 0
       \<and> slides ([] :: 'a list) = []
       \<and> \<not> autoplay_installed ([] :: 'a list) c
       \<and> carousel_step ([] :: 'a list) AutoplayTick c = c
       \<and> slides [x :: 'a] = [x, x, x]
       \<and> autoplay_installed [x] c = (\<not> paused c)"
proof -
  from assms have nl: "\<not> hasLoop images" by (simp add: hasLoop_def)
  then have "\<not> hasLoop images \<or> reduced" by simp
  from strip_static_when_ticker_off [OF this, of speed pauseOnHover evs hasIO now sw] nl
  show ?thesis
    by (simp add: track_def slides_def autoplay_installed_def)
qed

theorem C6_short_lists_witness:
  "track (JArray [JString ''a.avif'', JNull]) = [JObject [(''src'', JString ''a.avif'')]]
   \<and> scrollLeft (snd (strip_run (JArray [JString ''a.avif'', JNull]) 60 True False
        [FrameAt 16, ResizeTo 500, FrameAt 32]
        (strip_mount (JArray [JString ''a.avif'', JNull]) False True 0 1000 browser_init))) = 0
   \<and> carousel_step ([] :: string list) AutoplayTick carousel_init = carousel_init"
  using C6_short_lists [of "JArray [JString ''a.avif'', JNull]" 60 True False
          "[FrameAt 16, ResizeTo 500, FrameAt 32]" True 0 1000 carousel_init "''x''"]
  by (simp add: safeImages_def)

theorem C6_singleton_carousel_autoplays:
  "slides [''a''] = [''a'', ''a'', ''a'']
   \<and> autoplay_installed [''a''] carousel_init
   \<and> index (carousel_step [''a''] AutoplayTick carousel_init) = 2"
  by (simp add: slides_def autoplay_installed_def autoplay_tick_def carousel_init_def)

section \<open>Reduced motion and visibility\<close>

text \<open>
  X2. Under reduced motion the strip's ticker effect returns before it requests a frame:
  no sequence of frames, resizes, visibility reports or hover events moves the offset.
\<close>

theorem strip_reduced_motion_static:
  "scrollLeft (snd (strip_run images speed poh True evs
      (strip_mount images True hasIO now sw browser_init))) = 0"
  using strip_static_when_ticker_off [of images True speed poh evs hasIO now sw] by simp

text \<open>
  C4. The specification states that with the reduced-motion preference set, animation
  and autoplay are suppressed in both carousels while manual navigation keeps working.
  The strip does so. The sliding carousel does not: it never queries the preference, so
  nothing in its state or its effects depends on it, and its interval is installed and
  advances the index whatever the preference is. With three images and the pointer
  outside, the first tick moves the index from 1 to 2 with animation on.
\<close>

theorem C4_carousel_autoplay_ignores_preference:
  "autoplay_installed [''a'', ''b'', ''c''] carousel_init
   \<and> carousel_step [''a'', ''b'', ''c''] AutoplayTick carousel_init
       = \<lparr>index = 2, isAnimating = True, paused = False\<rparr>"
  by (simp add: slides_def autoplay_installed_def autoplay_tick_def carousel_init_def)

lemma setIsPaused_True: "isPaused (snd (setIsPaused images reduced now True bs))"
  by (cases bs)
     (auto simp: setIsPaused_def ticker_effect_def ticker_cleanup_def requestAnimationFrame_def
        new_observer_def split: prod.splits)

text \<open>
  X3. The visibility callback can only set \<^verbatim>\<open>isPaused\<close>: once the strip is paused, no
  batch of entries, intersecting or not, resumes it.
\<close>

theorem io_callback_stays_paused:
  "isPaused (snd bs) \<Longrightarrow> isPaused (snd (io_callback images reduced now entries bs))"
proof (induction entries arbitrary: bs)
  case Nil
  then show ?case by simp
next
  case (Cons e entries)
  then show ?case using setIsPaused_True [of images reduced now bs] by (cases e) auto
qed

theorem io_callback_stays_paused_witness:
  "isPaused (snd (io_callback (JArray [JString ''a.avif'', JString ''b.avif'']) False 40
      [True, True]
      (\<lparr>frames = [4], intervals = [], listeners = [], observers = [5, 3], issued = 5\<rparr>,
       \<lparr>scrollLeft = 24 / 25, scrollWidth = 2000, isPaused = True, prev = 20,
          rafId = 4, ro = 5, io = 3\<rparr>)))"
  using io_callback_stays_paused [of
      "(\<lparr>frames = [4], intervals = [], listeners = [], observers = [5, 3], issued = 5\<rparr>,
       \<lparr>scrollLeft = 24 / 25, scrollWidth = 2000, isPaused = True, prev = 20,
          rafId = 4, ro = 5, io = 3\<rparr>)"
      "JArray [JString ''a.avif'', JString ''b.avif'']" False 40 "[True, True]"]
  by simp

text \<open>
  C5. The specification states that the strip pauses when it leaves the viewport and
  resumes by itself when it is visible again, the offset being kept. The code pauses, and
  keeps the offset, but its observer callback handles only entries that are not
  intersecting: a report that the strip is visible again leaves \<^verbatim>\<open>isPaused\<close> true, and
  the frames that follow do not move the offset. (Only \<^verbatim>\<open>onMouseLeave\<close> sets it back
  to false.)
\<close>

theorem C5_visibility_never_resumes:
  "isPaused (snd (strip_run (JArray [JString ''a.avif'', JString ''b.avif'']) 60 True False
       [FrameAt 16, Intersection 20 [False], Intersection 40 [True]]
       (strip_mount (JArray [JString ''a.avif'', JString ''b.avif'']) False True 0 2000
          browser_init)))
   \<and> scrollLeft (snd (strip_run (JArray [JString ''a.avif'', JString ''b.avif'']) 60 True False
       [FrameAt 16, Intersection 20 [False], Intersection 40 [True]]
       (strip_mount (JArray [JString ''a.avif'', JString ''b.avif'']) False True 0 2000
          browser_init))) = 24 / 25
   \<and> scrollLeft (snd (strip_run (JArray [JString ''a.avif'', JString ''b.avif'']) 60 True False
       [FrameAt 16, Intersection 20 [False], Intersection 40 [True], FrameAt 56, FrameAt 72]
       (strip_mount (JArray [JString ''a.avif'', JString ''b.avif'']) False True 0 2000
          browser_init))) = 24 / 25"
  by (simp add: strip_mount_two strip_frame_def step_def Let_def requestAnimationFrame_def
        setIsPaused_def ticker_effect_def ticker_cleanup_def hasLoop_two new_observer_def
        observe_def disconnect_def cancelAnimationFrame_def)

section \<open>The section-activity observer\<close>

lemma section_callback_append:
  "section_callback (es @ es') a = section_callback es' (section_callback es a)"
  by (induction es arbitrary: a) auto

lemma section_run_append:
  "section_run (bs @ bs') a = section_run bs' (section_run bs a)"
  by (induction bs arbitrary: a) auto

text \<open>
  C8. For every sequence of observer callbacks, the section whose entry reports it
  intersecting last becomes the active one: an entry that is intersecting at the end of a
  batch sets \<^verbatim>\<open>active\<close> to its id, an entry that is not intersecting changes nothing,
  and a later batch overrides an earlier one. With sections A, B, C, a report that B
  entered makes the active section B, and a following report for C makes it C.
\<close>

theorem C8_last_intersecting_wins:
  "section_callback (es @ [(t, True)]) a = t
   \<and> section_callback (es @ [(t, False)]) a = section_callback es a
   \<and> section_run (batches @ [es @ [(t, True)]]) a = t
   \<and> section_run [[(''B'', True)]] ''A'' = ''B''
   \<and> section_run [[(''B'', True)], [(''C'', True)]] ''A'' = ''C''
   \<and> section_run [[(''process'', True)], [(''services'', False), (''gallery'', True)]]
        active_init = ''gallery''"
  by (simp add: section_callback_append section_run_append active_init_def)

section \<open>The normalisation of the images prop\<close>

lemma safeImages_not_array: "\<not> is_array images \<Longrightarrow> safeImages images = []"
  by (cases images) (auto simp: safeImages_def is_array_def)

lemma to_image_not_string: "\<not> is_string (to_image v)"
  by (cases v) (auto simp: is_string_def)

lemma truthy_to_image: "truthy v \<Longrightarrow> truthy (to_image v)"
  by (cases v) auto

lemma safeImages_entries:
  "v \<in> set (safeImages images) \<Longrightarrow> truthy v \<and> \<not> is_string v"
  by (auto simp: safeImages_def to_image_not_string truthy_to_image)

lemma safeImages_strings:
  "[] \<notin> set urls \<Longrightarrow> safeImages (JArray (map JString urls)) = map src_object urls"
  by (induction urls) (auto simp: safeImages_def src_object_def)

lemma safeImages_objects:
  "safeImages (JArray (map src_object urls)) = map src_object urls"
  by (induction urls) (auto simp: safeImages_def src_object_def)

text \<open>
  The strip reads the prop only through \<^verbatim>\<open>safeImages\<close>: two props with the same
  normalised list give the same loop decision, the same track and the same behaviour.
\<close>

lemma same_safeImages_same_loop:
  "safeImages x = safeImages y \<Longrightarrow> hasLoop x = hasLoop y \<and> track x = track y"
  by (simp add: hasLoop_def track_def)

lemma same_loop_same_effects:
  assumes "hasLoop x = hasLoop y"
  shows "ticker_effect x reduced now bs = ticker_effect y reduced now bs"
    and "ticker_cleanup x reduced bs = ticker_cleanup y reduced bs"
    and "setIsPaused x reduced now v bs = setIsPaused y reduced now v bs"
    and "strip_mount x reduced hasIO now sw b = strip_mount y reduced hasIO now sw b"
proof -
  have eff: "\<And>n cs. ticker_effect x reduced n cs = ticker_effect y reduced n cs"
    using assms by (simp add: ticker_effect_def)
  have cln: "\<And>cs. ticker_cleanup x reduced cs = ticker_cleanup y reduced cs"
    using assms by (simp add: ticker_cleanup_def)
  show "ticker_effect x reduced now bs = ticker_effect y reduced now bs" by (rule eff)
  show "ticker_cleanup x reduced bs = ticker_cleanup y reduced bs" by (rule cln)
  show "setIsPaused x reduced now v bs = setIsPaused y reduced now v bs"
    by (cases bs) (simp add: setIsPaused_def eff cln)
  show "strip_mount x reduced hasIO now sw b = strip_mount y reduced hasIO now sw b"
    by (simp add: strip_mount_def eff)
qed

lemma same_loop_same_io_callback:
  assumes "hasLoop x = hasLoop y"
  shows "io_callback x reduced now entries bs = io_callback y reduced now entries bs"
proof (induction entries arbitrary: bs)
  case Nil
  show ?case by simp
next
  case (Cons e entries)
  show ?case
    using Cons.IH same_loop_same_effects(3) [OF assms, of reduced now True bs] by simp
qed

lemma same_loop_same_step:
  assumes "hasLoop x = hasLoop y"
  shows "strip_step x speed poh reduced ev bs = strip_step y speed poh reduced ev bs"
proof (cases ev)
  case (FrameAt ts)
  then show ?thesis by simp
next
  case (ResizeTo sw)
  then show ?thesis by simp
next
  case (Intersection now entries)
  then show ?thesis
    using same_loop_same_io_callback [OF assms, of reduced now entries bs] by simp
next
  case (PointerEnter now)
  then show ?thesis
    using same_loop_same_effects(3) [OF assms, of reduced now True bs] by simp
next
  case (PointerLeave now)
  then show ?thesis
    using same_loop_same_effects(3) [OF assms, of reduced now False bs] by simp
qed

lemma same_loop_same_run:
  assumes "hasLoop x = hasLoop y"
  shows "strip_run x speed poh reduced evs bs = strip_run y speed poh reduced evs bs"
proof (induction evs arbitrary: bs)
  case Nil
  show ?case by simp
next
  case (Cons ev evs)
  show ?case
    using Cons.IH same_loop_same_step [OF assms, of speed poh reduced ev bs] by simp
qed

text \<open>
  C10. Whatever value is passed as the images prop, it is normalised first: a value that
  is not an array gives the empty list, falsy entries are dropped, and every string that
  remains becomes the object \<^verbatim>\<open>{ src: string }\<close>, so the normalised list holds no falsy
  entry and no string. The loop decision and the duplicated track are computed from the
  normalised list. Hence a list of URL strings and the list of the corresponding
  \<^verbatim>\<open>{ src }\<close> objects normalise to the same list and give the same loop decision, track
  and behaviour. (A URL string is not empty: the empty string is one of the falsy entries
  that the filter drops.)
\<close>

theorem C10_images_normalised:
  "(\<not> is_array images \<longrightarrow> safeImages images = [])
   \<and> (\<forall>v \<in> set (safeImages images). truthy v \<and> \<not> is_string v)
   \<and> safeImages (JArray vs) = map to_image (filter truthy vs)
   \<and> to_image (JString u) = src_object u
   \<and> hasLoop images = (2 \<le> length (safeImages images))
   \<and> track images = (if 2 \<le> length (safeImages images)
                       then safeImages images @ safeImages images else safeImages images)
   \<and> ([] \<notin> set urls \<longrightarrow>
        safeImages (JArray (map JString urls)) = map src_object urls
      \<and> safeImages (JArray (map src_object urls)) = map src_object urls
      \<and> hasLoop (JArray (map JString urls)) = hasLoop (JArray (map src_object urls))
      \<and> track (JArray (map JString urls)) = track (JArray (map src_object urls))
      \<and> strip_run (JArray (map JString urls)) speed pauseOnHover reduced evs
          (strip_mount (JArray (map JString urls)) reduced hasIO now sw b)
        = strip_run (JArray (map src_object urls)) speed pauseOnHover reduced evs
          (strip_mount (JArray (map src_object urls)) reduced hasIO now sw b))"
proof -
  have norm: "[] \<notin> set urls \<longrightarrow>
      safeImages (JArray (map JString urls)) = safeImages (JArray (map src_object urls))"
    by (simp add: safeImages_strings safeImages_objects)
  then have loop: "[] \<notin> set urls \<longrightarrow>
      hasLoop (JArray (map JString urls)) = hasLoop (JArray (map src_object urls))
    \<and> track (JArray (map JString urls)) = track (JArray (map src_object urls))"
    using same_safeImages_same_loop by blast
  have run: "[] \<notin> set urls \<longrightarrow>
      strip_run (JArray (map JString urls)) speed pauseOnHover reduced evs
          (strip_mount (JArray (map JString urls)) reduced hasIO now sw b)
        = strip_run (JArray (map src_object urls)) speed pauseOnHover reduced evs
          (strip_mount (JArray (map src_object urls)) reduced hasIO now sw b)"
  proof
    assume ne: "[] \<notin> set urls"
    with loop have hl: "hasLoop (JArray (map JString urls)) = hasLoop (JArray (map src_object urls))"
      by simp
    show "strip_run (JArray (map JString urls)) speed pauseOnHover reduced evs
          (strip_mount (JArray (map JString urls)) reduced hasIO now sw b)
        = strip_run (JArray (map src_object urls)) speed pauseOnHover reduced evs
          (strip_mount (JArray (map src_object urls)) reduced hasIO now sw b)"
      using same_loop_same_run [OF hl] same_loop_same_effects(4) [OF hl] by simp
  qed
  have nonarray: "\<not> is_array images \<longrightarrow> safeImages images = []"
    by (simp add: safeImages_not_array)
  have entries: "\<forall>v \<in> set (safeImages images). truthy v \<and> \<not> is_string v"
    using safeImages_entries by blast
  have array: "safeImages (JArray vs) = map to_image (filter truthy vs)"
    by (simp add: safeImages_def)
  have str: "to_image (JString u) = src_object u"
    by (simp add: src_object_def)
  have derived: "hasLoop images = (2 \<le> length (safeImages images))
     \<and> track images = (if 2 \<le> length (safeImages images)
                       then safeImages images @ safeImages images else safeImages images)"
    by (simp add: hasLoop_def track_def)
  have strs: "[] \<notin> set urls \<longrightarrow>
        safeImages (JArray (map JString urls)) = map src_object urls
      \<and> safeImages (JArray (map src_object urls)) = map src_object urls"
    by (simp add: safeImages_strings safeImages_objects)
  from nonarray entries array str derived strs loop run show ?thesis
    by blast
qed

theorem C10_images_normalised_witness:
  "safeImages JNull = []
   \<and> safeImages (JArray [JString ''a.avif'', JNull, JString [], JBool False, JString ''b.avif''])
       = [JObject [(''src'', JString ''a.avif'')], JObject [(''src'', JString ''b.avif'')]]
   \<and> safeImages (JArray [JString ''a.avif'', JString ''b.avif''])
       = safeImages (JArray [JObject [(''src'', JString ''a.avif'')],
                             JObject [(''src'', JString ''b.avif'')]])
   \<and> hasLoop (JArray [JString ''a.avif'', JString ''b.avif''])
   \<and> track (JArray [JString ''a.avif'', JString ''b.avif''])
       = track (JArray [JObject [(''src'', JString ''a.avif'')],
                        JObject [(''src'', JString ''b.avif'')]])"
  using C10_images_normalised [of JNull
          "[JString ''a.avif'', JNull, JString [], JBool False, JString ''b.avif'']"
          "''a.avif''" "[''a.avif'', ''b.avif'']" 60 True False "[]" True 0 2000 browser_init]
  by (simp add: is_array_def src_object_def hasLoop_def safeImages_def track_def)

section \<open>Teardown\<close>

lemma removeAll_idem: "removeAll x (removeAll x xs) = removeAll x xs"
  by (induction xs) auto

lemma removeAll_covered: "set xs \<subseteq> {x} \<Longrightarrow> removeAll x xs = []"
  by (induction xs) auto

lemma removeAll2_covered: "set xs \<subseteq> {x, y} \<Longrightarrow> removeAll y (removeAll x xs) = []"
  by (induction xs) auto

subsection \<open>The parallax driver\<close>

lemma parallax_cleanup_idem:
  "parallax_cleanup p (parallax_cleanup p b) = parallax_cleanup p b"
  by (simp add: parallax_cleanup_def Let_def removeEventListener_def cancelAnimationFrame_def
        removeAll_idem removeAll_commute)

lemma onScroll_owned:
  "parallax_owned bp \<Longrightarrow> parallax_owned (onScroll reduced y bp)"
  by (cases bp)
     (auto simp: parallax_owned_def onScroll_def requestAnimationFrame_def split: if_splits)

lemma onResize_owned:
  "parallax_owned bp \<Longrightarrow> parallax_owned (onResize reduced rectTop y bp)"
proof -
  assume a: "parallax_owned bp"
  obtain b p where bp: "bp = (b, p)" by (cases bp)
  have "parallax_owned (b, p\<lparr>containerTop := getContainerTop rectTop y, lastY := - 1\<rparr>)"
    using a bp by (simp add: parallax_owned_def)
  then show ?thesis
    using bp onScroll_owned by (simp add: onResize_def)
qed

lemma parallax_frame_owned:
  "parallax_owned bp \<Longrightarrow> parallax_owned (parallax_frame speed bp)"
  by (cases bp) (auto simp: parallax_owned_def parallax_frame_def)

lemma parallax_step_owned:
  "parallax_owned bp \<Longrightarrow> parallax_owned (parallax_step reduced speed ev bp)"
  by (cases ev) (simp_all add: onScroll_owned onResize_owned parallax_frame_owned)

lemma parallax_run_owned:
  "parallax_owned bp \<Longrightarrow> parallax_owned (parallax_run reduced speed evs bp)"
  by (induction evs arbitrary: bp) (simp_all add: parallax_step_owned)

lemma parallax_mount_owned:
  assumes "useParallaxRelative present reduced rectTop y browser_init = (b, Some p)"
  shows "parallax_owned (b, p)"
proof -
  let ?p0 = "\<lparr>containerTop = getContainerTop rectTop y, lastY = - 1, raf = 0,
               frameY = 0, bgOffset = None\<rparr>"
  have "parallax_owned (browser_init, ?p0)"
    by (simp add: parallax_owned_def browser_init_def)
  then have o: "parallax_owned (onResize reduced rectTop y (browser_init, ?p0))"
    by (rule onResize_owned)
  obtain b1 p1 where r: "onResize reduced rectTop y (browser_init, ?p0) = (b1, p1)"
    by (cases "onResize reduced rectTop y (browser_init, ?p0)")
  from assms r have "p = p1"
    and "b = addEventListener (''resize'', ''onResize'')
               (addEventListener (''scroll'', ''onScroll'') b1)"
    by (auto simp: useParallaxRelative_def split: if_splits)
  with o r show ?thesis
    by (auto simp: parallax_owned_def addEventListener_def)
qed

lemma parallax_cleanup_owned:
  assumes "parallax_owned (b, p)"
  shows "outstanding (parallax_cleanup p b) = 0"
proof -
  from assms have l: "removeAll (''resize'', ''onResize'')
                        (removeAll (''scroll'', ''onScroll'') (listeners b)) = []"
    by (intro removeAll2_covered) (simp add: parallax_owned_def)
  from assms have f: "raf p \<noteq> 0 \<Longrightarrow> removeAll (raf p) (frames b) = []"
    by (intro removeAll_covered) (simp add: parallax_owned_def)
  from assms have f0: "raf p = 0 \<Longrightarrow> frames b = []"
    by (cases "frames b") (auto simp: parallax_owned_def)
  from assms have rest: "intervals b = []" "observers b = []"
    by (simp_all add: parallax_owned_def)
  show ?thesis
    using l f f0 rest
    by (simp add: parallax_cleanup_def Let_def outstanding_def removeEventListener_def
          cancelAnimationFrame_def)
qed

lemma parallax_life_teardown:
  "outstanding (parallax_teardown (snd (parallax_life present reduced speed rectTop y evs))
      (fst (parallax_life present reduced speed rectTop y evs))) = 0"
proof (cases "useParallaxRelative present reduced rectTop y browser_init")
  case (Pair b po)
  show ?thesis
  proof (cases po)
    case None
    with Pair have "b = browser_init"
      by (auto simp: useParallaxRelative_def split: if_splits prod.splits)
    with Pair None show ?thesis
      by (simp add: parallax_life_def parallax_teardown_def outstanding_def browser_init_def)
  next
    case (Some p)
    obtain b' p' where r: "parallax_run reduced speed evs (b, p) = (b', p')"
      by (cases "parallax_run reduced speed evs (b, p)")
    have "parallax_owned (b, p)"
      using Pair Some parallax_mount_owned by blast
    then have "parallax_owned (b', p')"
      using parallax_run_owned [of "(b, p)" reduced speed evs] r by simp
    then have "outstanding (parallax_cleanup p' b') = 0"
      by (rule parallax_cleanup_owned)
    with Pair Some r show ?thesis
      by (simp add: parallax_life_def parallax_teardown_def)
  qed
qed

subsection \<open>The infinite strip\<close>

lemma strip_unmount_idem:
  "strip_unmount images reduced hasIO (strip_unmount images reduced hasIO bs)
     = strip_unmount images reduced hasIO bs"
  by (cases bs)
     (simp add: strip_unmount_def ticker_cleanup_def visibility_cleanup_def disconnect_def
        cancelAnimationFrame_def removeAll_idem removeAll_commute)

lemma step_owned:
  assumes "hasLoop images" "\<not> reduced"
    and "strip_owned images reduced hasIO (b\<lparr>frames := []\<rparr>, s)"
  shows "strip_owned images reduced hasIO (step speed ts (b\<lparr>frames := []\<rparr>, s))"
  using assms
  by (auto simp: strip_owned_def step_def Let_def requestAnimationFrame_def)

lemma strip_frame_owned:
  assumes "strip_owned images reduced hasIO bs"
  shows "strip_owned images reduced hasIO (strip_frame speed ts bs)"
proof -
  obtain b s where bs: "bs = (b, s)" by (cases bs)
  show ?thesis
  proof (cases "rafId s \<in> set (frames b)")
    case False
    with assms bs show ?thesis by (simp add: strip_frame_def)
  next
    case True
    with assms bs have en: "hasLoop images" "\<not> reduced"
      by (auto simp: strip_owned_def split: if_splits)
    with assms bs have "removeAll (rafId s) (frames b) = []"
      by (intro removeAll_covered) (simp add: strip_owned_def)
    moreover have "strip_owned images reduced hasIO (b\<lparr>frames := []\<rparr>, s)"
      using assms bs en by (auto simp: strip_owned_def split: if_splits)
    ultimately show ?thesis
      using True bs step_owned [OF en, of hasIO b s speed ts] by (simp add: strip_frame_def)
  qed
qed

lemma setIsPaused_owned:
  assumes "strip_owned images reduced hasIO bs"
  shows "strip_owned images reduced hasIO (setIsPaused images reduced now v bs)"
proof -
  obtain b s where bs: "bs = (b, s)" by (cases bs)
  show ?thesis
  proof (cases "hasLoop images \<and> \<not> reduced")
    case False
    with assms bs show ?thesis
      by (auto simp: setIsPaused_def ticker_effect_def ticker_cleanup_def strip_owned_def)
  next
    case True
    with assms bs have f: "removeAll (rafId s) (frames b) = []"
      by (intro removeAll_covered) (simp add: strip_owned_def)
    from True assms bs have o: "set (removeAll (ro s) (observers b))
        \<subseteq> (if hasIO then {io s} else {})"
      by (auto simp: strip_owned_def)
    from True assms bs f o show ?thesis
      by (auto simp: setIsPaused_def ticker_effect_def ticker_cleanup_def strip_owned_def
            requestAnimationFrame_def new_observer_def observe_def disconnect_def
            cancelAnimationFrame_def)
  qed
qed

lemma io_callback_owned:
  "strip_owned images reduced hasIO bs \<Longrightarrow>
   strip_owned images reduced hasIO (io_callback images reduced now entries bs)"
  by (induction entries arbitrary: bs) (simp_all add: setIsPaused_owned)

lemma strip_step_owned:
  assumes "strip_owned images reduced hasIO bs"
  shows "strip_owned images reduced hasIO (strip_step images speed poh reduced ev bs)"
proof (cases ev)
  case (FrameAt ts)
  with assms show ?thesis by (simp add: strip_frame_owned)
next
  case (ResizeTo sw)
  with assms show ?thesis
    by (cases bs) (auto simp: strip_owned_def onResize_strip_def Let_def split: if_splits)
next
  case (Intersection now entries)
  with assms show ?thesis by (simp add: io_callback_owned)
next
  case (PointerEnter now)
  with assms show ?thesis by (simp add: setIsPaused_owned)
next
  case (PointerLeave now)
  with assms show ?thesis by (simp add: setIsPaused_owned)
qed

lemma strip_run_owned:
  "strip_owned images reduced hasIO bs \<Longrightarrow>
   strip_owned images reduced hasIO (strip_run images speed poh reduced evs bs)"
  by (induction evs arbitrary: bs) (simp_all add: strip_step_owned)

lemma strip_mount_owned:
  "strip_owned images reduced hasIO (strip_mount images reduced hasIO now sw browser_init)"
  by (auto simp: strip_owned_def strip_mount_def ticker_effect_def visibility_effect_def
        requestAnimationFrame_def new_observer_def observe_def browser_init_def)

lemma strip_unmount_owned:
  assumes "strip_owned images reduced hasIO bs"
  shows "outstanding (fst (strip_unmount images reduced hasIO bs)) = 0"
proof -
  obtain b s where bs: "bs = (b, s)" by (cases bs)
  have f: "hasLoop images \<and> \<not> reduced \<Longrightarrow> removeAll (rafId s) (frames b) = []"
    using assms bs by (intro removeAll_covered) (simp add: strip_owned_def)
  have f0: "\<not> (hasLoop images \<and> \<not> reduced) \<Longrightarrow> frames b = []"
    using assms bs by (auto simp: strip_owned_def split: if_splits)
  have o: "removeAll (io s) (removeAll (ro s) (observers b)) = []"
    if "hasLoop images \<and> \<not> reduced" "hasIO"
    using assms bs that by (intro removeAll2_covered) (auto simp: strip_owned_def)
  have o1: "removeAll (ro s) (observers b) = []"
    if "hasLoop images \<and> \<not> reduced" "\<not> hasIO"
    using assms bs that by (intro removeAll_covered) (auto simp: strip_owned_def)
  have o2: "removeAll (io s) (observers b) = []"
    if "\<not> (hasLoop images \<and> \<not> reduced)" "hasIO"
    using assms bs that by (intro removeAll_covered) (auto simp: strip_owned_def)
  have o3: "observers b = []"
    if "\<not> (hasLoop images \<and> \<not> reduced)" "\<not> hasIO"
    using assms bs that by (auto simp: strip_owned_def)
  have rest: "intervals b = []" "listeners b = []"
    using assms bs by (simp_all add: strip_owned_def)
  show ?thesis
    using f f0 o o1 o2 o3 rest bs
    by (cases "hasLoop images \<and> \<not> reduced"; cases hasIO)
       (auto simp: strip_unmount_def ticker_cleanup_def visibility_cleanup_def disconnect_def
          cancelAnimationFrame_def outstanding_def)
qed

subsection \<open>The section observer and the sliding carousel\<close>

lemma observe_sections_owned:
  "set (observers b) \<subseteq> {obs} \<Longrightarrow> frames b = [] \<Longrightarrow> intervals b = [] \<Longrightarrow> listeners b = [] \<Longrightarrow>
   set (observers (observe_sections document ids obs b)) \<subseteq> {obs}
   \<and> frames (observe_sections document ids obs b) = []
   \<and> intervals (observe_sections document ids obs b) = []
   \<and> listeners (observe_sections document ids obs b) = []"
  by (induction ids arbitrary: b) (auto simp: observe_def)

lemma section_teardown:
  "outstanding (section_cleanup (snd (section_effect document ids browser_init))
      (fst (section_effect document ids browser_init))) = 0"
proof -
  let ?b1 = "browser_init\<lparr>issued := Suc (issued browser_init)\<rparr>"
  let ?obs = "Suc (issued browser_init)"
  have "set (observers (observe_sections document ids ?obs ?b1)) \<subseteq> {?obs}
   \<and> frames (observe_sections document ids ?obs ?b1) = []
   \<and> intervals (observe_sections document ids ?obs ?b1) = []
   \<and> listeners (observe_sections document ids ?obs ?b1) = []"
    by (rule observe_sections_owned) (simp_all add: browser_init_def)
  then show ?thesis
    by (simp add: section_effect_def section_cleanup_def new_observer_def disconnect_def
          outstanding_def removeAll_covered)
qed

lemma section_cleanup_idem:
  "section_cleanup obs (section_cleanup obs b) = section_cleanup obs b"
  by (simp add: section_cleanup_def disconnect_def removeAll_idem)

lemma carousel_unmount_idem:
  "carousel_unmount hs (carousel_unmount hs b) = carousel_unmount hs b"
  by (cases hs)
     (auto simp: carousel_unmount_def autoplay_cleanup_def transitionend_cleanup_def
        reenable_cleanup_def clearInterval_def removeEventListener_def cancelAnimationFrame_def
        removeAll_idem split: option.splits)

lemma carousel_teardown:
  "outstanding (carousel_unmount (snd (carousel_mount images c browser_init))
      (fst (carousel_mount images c browser_init))) = 0"
  by (simp add: carousel_mount_def carousel_unmount_def autoplay_effect_def autoplay_cleanup_def
        transitionend_effect_def transitionend_cleanup_def reenable_effect_def
        reenable_cleanup_def setInterval_def clearInterval_def addEventListener_def
        removeEventListener_def requestAnimationFrame_def cancelAnimationFrame_def
        outstanding_def browser_init_def)

text \<open>
  C9. For every component of the subsystem (the parallax driver, the section observer,
  the infinite strip, the sliding carousel), running its teardown a second time changes
  nothing after the first, and after the teardown of a component that was mounted on an
  otherwise empty page, at any point of its life, the browser holds no timer, listener,
  observer or pending frame request. (The revoking calls of the browser do nothing for a
  handle that is no longer registered, so the teardown cannot fail.)
\<close>

theorem C9_teardown_idempotent:
  "parallax_teardown po (parallax_teardown po b) = parallax_teardown po b
   \<and> outstanding (parallax_teardown (snd (parallax_life present reduced speed rectTop y pevs))
        (fst (parallax_life present reduced speed rectTop y pevs))) = 0
   \<and> section_cleanup obs (section_cleanup obs b) = section_cleanup obs b
   \<and> outstanding (section_cleanup (snd (section_effect document ids browser_init))
        (fst (section_effect document ids browser_init))) = 0
   \<and> strip_unmount images reduced hasIO (strip_unmount images reduced hasIO bs)
       = strip_unmount images reduced hasIO bs
   \<and> outstanding (fst (strip_unmount images reduced hasIO
        (strip_run images speed' pauseOnHover reduced sevs
           (strip_mount images reduced hasIO now sw browser_init)))) = 0
   \<and> carousel_unmount hs (carousel_unmount hs b) = carousel_unmount hs b
   \<and> outstanding (carousel_unmount (snd (carousel_mount slideImages c browser_init))
        (fst (carousel_mount slideImages c browser_init))) = 0"
proof -
  have p1: "parallax_teardown po (parallax_teardown po b) = parallax_teardown po b"
    by (cases po) (simp_all add: parallax_teardown_def parallax_cleanup_idem)
  have s2: "outstanding (fst (strip_unmount images reduced hasIO
        (strip_run images speed' pauseOnHover reduced sevs
           (strip_mount images reduced hasIO now sw browser_init)))) = 0"
    by (intro strip_unmount_owned strip_run_owned strip_mount_owned)
  show ?thesis
    using p1 s2 parallax_life_teardown section_cleanup_idem section_teardown
      strip_unmount_idem carousel_unmount_idem carousel_teardown
    by blast
qed

end
